theory Spec2Isabelle
  imports Complex_Main "HOL-Library.Sublist" "HOL-Library.Multiset"
begin

section \<open>Strings\<close>

text \<open>
  Python \<^verbatim>\<open>str\<close> values are modelled as \<^typ>\<open>string\<close>. \<^verbatim>\<open>str.lower()\<close> is modelled on
  ASCII text: the letters \<^verbatim>\<open>A\<close> to \<^verbatim>\<open>Z\<close> are folded, every other character is kept.
\<close>

definition lower_char :: "char \<Rightarrow> char" where
  "lower_char c =
     (case map_of (zip ''ABCDEFGHIJKLMNOPQRSTUVWXYZ'' ''abcdefghijklmnopqrstuvwxyz'') c of
        None \<Rightarrow> c
      | Some d \<Rightarrow> d)"

definition lower :: "string \<Rightarrow> string" where
  "lower s = map lower_char s"

text \<open>\<^verbatim>\<open>s.startswith(g)\<close> and the substring test \<^verbatim>\<open>g in s\<close> of Python strings.\<close>

fun startswith :: "string \<Rightarrow> string \<Rightarrow> bool" where
  "startswith s [] = True"
| "startswith [] (c # g) = False"
| "startswith (d # s) (c # g) = (d = c \<and> startswith s g)"

fun str_contains :: "string \<Rightarrow> string \<Rightarrow> bool" where
  "str_contains [] g = (g = [])"
| "str_contains (d # s) g = (startswith (d # s) g \<or> str_contains s g)"

text \<open>\<^verbatim>\<open>(c or "")\<close> for a value that is a string or \<^verbatim>\<open>None\<close>.\<close>

definition or_empty :: "string option \<Rightarrow> string" where
  "or_empty c = (case c of None \<Rightarrow> [] | Some s \<Rightarrow> s)"

section \<open>Insertion-ordered dictionaries\<close>

text \<open>
  A Python \<^verbatim>\<open>dict\<close> (and \<^verbatim>\<open>Counter\<close>) keeps its keys in insertion order; assigning to a
  key that is present keeps the key's position. The dictionary is an association list
  with distinct keys, \<^verbatim>\<open>d.get(k)\<close> is \<^const>\<open>map_of\<close>, and \<^verbatim>\<open>d[k] = v\<close> is:
\<close>

fun dict_set :: "('k \<times> 'v) list \<Rightarrow> 'k \<Rightarrow> 'v \<Rightarrow> ('k \<times> 'v) list" where
  "dict_set [] k v = [(k, v)]"
| "dict_set ((k', v') # d) k v =
     (if k' = k then (k', v) # d else (k', v') # dict_set d k v)"

text \<open>The keys of a dictionary, in insertion order.\<close>

definition keys :: "('k \<times> 'v) list \<Rightarrow> 'k list" where
  "keys d = map fst d"

type_synonym counter = "(string \<times> real) list"

text \<open>\<^verbatim>\<open>counts[k] += v\<close> on a \<^verbatim>\<open>Counter\<close>: a missing key reads as 0 and is then stored.\<close>

definition counter_add :: "counter \<Rightarrow> string \<Rightarrow> real \<Rightarrow> counter" where
  "counter_add counts k v =
     dict_set counts k ((case map_of counts k of None \<Rightarrow> 0 | Some w \<Rightarrow> w) + v)"

text \<open>
  \<^verbatim>\<open>Counter.most_common(n)\<close> is \<^verbatim>\<open>heapq.nlargest(n, items, key=count)\<close>, which is
  \<^verbatim>\<open>sorted(items, key=count, reverse=True)[:n]\<close>: a stable sort by descending count (equal
  counts keep their insertion order), cut to \<open>n\<close> items, and to none for \<open>n \<le> 0\<close>.
\<close>

definition most_common :: "counter \<Rightarrow> int \<Rightarrow> (string \<times> real) list" where
  "most_common counts n = take (nat n) (sort_key (\<lambda>(k, w). - w) counts)"

section \<open>The rating store (app/db.py, app/models.py)\<close>

text \<open>
  A document of the \<^verbatim>\<open>ratings\<close> collection, as \<^verbatim>\<open>add_rating\<close> stores a \<^verbatim>\<open>RatingIn\<close>. The
  fields the recommender reads: \<^verbatim>\<open>rating\<close> may be absent (\<^verbatim>\<open>r.get("rating", 0)\<close>),
  \<^verbatim>\<open>categories\<close> and \<^verbatim>\<open>authors\<close> may be absent or null (\<^const>\<open>None\<close>) or a list of strings.
  Ratings and scores are Python floats, modelled as exact reals.
\<close>

record rating_doc =
  r_user_id :: string
  r_book_id :: string
  r_rating :: "real option"
  r_categories :: "string list option"
  r_authors :: "string list option"

text \<open>\<^verbatim>\<open>ratings_col.find({"user_id": user_id})\<close>: the user's documents, in cursor order.\<close>

definition ratings_find :: "rating_doc list \<Rightarrow> string \<Rightarrow> rating_doc list" where
  "ratings_find ratings_col user_id = filter (\<lambda>r. r_user_id r = user_id) ratings_col"

section \<open>Profile extraction (app/recommender.py, lines 8 to 23)\<close>

text \<open>\<^verbatim>\<open>r.get("rating", 0)\<close>\<close>

definition get_rating :: "rating_doc \<Rightarrow> real" where
  "get_rating r = (case r_rating r of None \<Rightarrow> 0 | Some x \<Rightarrow> x)"

text \<open>\<^verbatim>\<open>for g in names: counts[g.lower()] += v\<close>\<close>

fun add_all :: "counter \<Rightarrow> string list \<Rightarrow> real \<Rightarrow> counter" where
  "add_all counts [] v = counts"
| "add_all counts (g # gs) v = add_all (counter_add counts (lower g) v) gs v"

text \<open>
  One guarded inner loop: \<^verbatim>\<open>if "categories" in r and r["categories"]: for g in ...\<close>
\<close>

definition add_field :: "counter \<Rightarrow> string list option \<Rightarrow> real \<Rightarrow> counter" where
  "add_field counts field v =
     (case field of
        None \<Rightarrow> counts
      | Some names \<Rightarrow> if names \<noteq> [] then add_all counts names v else counts)"

text \<open>The body of \<^verbatim>\<open>async for r in cursor\<close>, on the pair of counters.\<close>

definition profile_step :: "counter \<times> counter \<Rightarrow> rating_doc \<Rightarrow> counter \<times> counter" where
  "profile_step s r =
     (case s of (genre_counts, author_counts) \<Rightarrow>
        (add_field genre_counts (r_categories r) (get_rating r),
         add_field author_counts (r_authors r) (get_rating r)))"

text \<open>Lines 10 to 20: the two counters when the cursor is exhausted.\<close>

definition profile_counts :: "rating_doc list \<Rightarrow> string \<Rightarrow> counter \<times> counter" where
  "profile_counts ratings_col user_id =
     foldl profile_step ([], []) (ratings_find ratings_col user_id)"

definition get_user_top_genres_and_authors ::
    "rating_doc list \<Rightarrow> string \<Rightarrow> int \<Rightarrow> string list \<times> string list" where
  "get_user_top_genres_and_authors ratings_col user_id top_n =
     (case profile_counts ratings_col user_id of
        (genre_counts, author_counts) \<Rightarrow>
          (map fst (most_common genre_counts top_n),
           map fst (most_common author_counts top_n)))"

section \<open>The search provider (app/google_books.py)\<close>

text \<open>
  An item of the Google Books response and its \<^verbatim>\<open>volumeInfo\<close>; every key may be absent
  (\<^const>\<open>None\<close>); a list that is present holds strings or nulls.
\<close>

record volume_info =
  v_title :: "string option"
  v_authors :: "string option list option"
  v_publisher :: "string option"
  v_publishedDate :: "string option"
  v_description :: "string option"
  v_categories :: "string option list option"
  v_pageCount :: "int option"
  v_thumbnail :: "string option"
  v_infoLink :: "string option"

record item =
  item_id :: "string option"
  volumeInfo :: "volume_info option"

text \<open>The dictionary \<^verbatim>\<open>normalize_book\<close> builds: every key is present, values may be null.\<close>

record book =
  book_id :: "string option"
  title :: "string option"
  authors :: "string option list"
  publisher :: "string option"
  publishedDate :: "string option"
  description :: "string option"
  categories :: "string option list"
  pageCount :: "int option"
  thumbnail :: "string option"
  infoLink :: "string option"

definition normalize_book :: "item \<Rightarrow> book" where
  "normalize_book it =
     (case volumeInfo it of
        None \<Rightarrow>
          \<lparr>book_id = item_id it, title = None, authors = [], publisher = None,
           publishedDate = None, description = None, categories = [], pageCount = None,
           thumbnail = None, infoLink = None\<rparr>
      | Some v \<Rightarrow>
          \<lparr>book_id = item_id it, title = v_title v,
           authors = (case v_authors v of None \<Rightarrow> [] | Some xs \<Rightarrow> xs),
           publisher = v_publisher v, publishedDate = v_publishedDate v,
           description = v_description v,
           categories = (case v_categories v of None \<Rightarrow> [] | Some xs \<Rightarrow> xs),
           pageCount = v_pageCount v, thumbnail = v_thumbnail v, infoLink = v_infoLink v\<rparr>)"

text \<open>
  Effects are recorded in a log, in program order: each read of the rating store and each
  HTTP request (by its \<^verbatim>\<open>q\<close> and \<^verbatim>\<open>maxResults\<close> parameters).
\<close>

datatype io_event = Ratings_find string | Client_get string int

text \<open>
  What the body of the \<^verbatim>\<open>try\<close> block can do for one request: raise an \<^verbatim>\<open>httpx.HTTPError\<close>
  (a timeout, a transport error, the status error of \<^verbatim>\<open>raise_for_status\<close>), raise an
  exception of another class (\<^verbatim>\<open>r.json()\<close> raises \<^verbatim>\<open>json.JSONDecodeError\<close> on a body that is
  not JSON), or yield the decoded object, whose \<^verbatim>\<open>items\<close> key may be absent.
\<close>

datatype py_exception = HTTPError | JSONDecodeError

type_synonym provider = "string \<Rightarrow> int \<Rightarrow> py_exception + item list option"

type_synonym 'a io = "io_event list \<times> (py_exception + 'a)"

text \<open>\<^verbatim>\<open>except httpx.HTTPError: return []\<close>; any other exception leaves the function.\<close>

definition search_books_by_keywords :: "provider \<Rightarrow> string \<Rightarrow> int \<Rightarrow> book list io" where
  "search_books_by_keywords client_get q max_results =
     ([Client_get q max_results],
      (case client_get q max_results of
         Inl HTTPError \<Rightarrow> Inr []
       | Inl e \<Rightarrow> Inl e
       | Inr data \<Rightarrow>
           Inr (map normalize_book (case data of None \<Rightarrow> [] | Some items \<Rightarrow> items))))"

definition search_books_by_genre :: "provider \<Rightarrow> string \<Rightarrow> int \<Rightarrow> book list io" where
  "search_books_by_genre client_get genre max_results =
     search_books_by_keywords client_get (''subject:'' @ genre) max_results"

definition search_books_by_author :: "provider \<Rightarrow> string \<Rightarrow> int \<Rightarrow> book list io" where
  "search_books_by_author client_get author max_results =
     search_books_by_keywords client_get (''inauthor:'' @ author) max_results"

section \<open>Candidate retrieval (app/recommender.py, lines 29 to 41)\<close>

text \<open>
  \<^verbatim>\<open>asyncio.gather(*tasks)\<close> without \<^verbatim>\<open>return_exceptions\<close>: every task is started; the
  results come back in the order of the tasks; an exception that leaves a task is raised
  to the caller.
\<close>

fun collect :: "(py_exception + 'a) list \<Rightarrow> py_exception + 'a list" where
  "collect [] = Inr []"
| "collect (Inl e # rs) = Inl e"
| "collect (Inr x # rs) = (case collect rs of Inl e \<Rightarrow> Inl e | Inr xs \<Rightarrow> Inr (x # xs))"

definition gather :: "'a io list \<Rightarrow> 'a list io" where
  "gather tasks = (concat (map fst tasks), collect (map snd tasks))"

text \<open>Lines 30 to 38: one task per genre, one per author, the two generic ones if none.\<close>

definition build_tasks :: "provider \<Rightarrow> string list \<Rightarrow> string list \<Rightarrow> book list io list" where
  "build_tasks client_get top_genres top_authors =
     (let tasks = map (\<lambda>g. search_books_by_genre client_get g 10) top_genres
                  @ map (\<lambda>a. search_books_by_author client_get a 10) top_authors
      in if tasks = []
         then [search_books_by_genre client_get ''fiction'' 15,
               search_books_by_genre client_get ''nonfiction'' 15]
         else tasks)"

text \<open>
  Lines 30 to 41: the tasks are run and their results flattened into one pool,
  \<^verbatim>\<open>flat = [b for sub in results for b in sub]\<close>.
\<close>

definition retrieve_candidates ::
    "provider \<Rightarrow> string list \<Rightarrow> string list \<Rightarrow> book list io" where
  "retrieve_candidates client_get top_genres top_authors =
     (case gather (build_tasks client_get top_genres top_authors) of
        (evs, Inl e) \<Rightarrow> (evs, Inl e)
      | (evs, Inr results) \<Rightarrow> (evs, Inr (concat results)))"

section \<open>Scoring and ranking (app/recommender.py, lines 43 to 72)\<close>

text \<open>\<^verbatim>\<open>any(g in (c or "").lower() for c in cs)\<close>\<close>

definition any_in :: "string \<Rightarrow> string option list \<Rightarrow> bool" where
  "any_in g cs = list_ex (\<lambda>c. str_contains (lower (or_empty c)) g) cs"

text \<open>\<^verbatim>\<open>for g in tops: if any(...): score += w\<close>\<close>

fun boost :: "real \<Rightarrow> string list \<Rightarrow> string option list \<Rightarrow> real \<Rightarrow> real" where
  "boost w [] cs score = score"
| "boost w (g # gs) cs score = boost w gs cs (if any_in g cs then score + w else score)"

text \<open>Lines 54 to 65: the score of candidate \<open>b\<close>, whose non-empty id is \<open>bid\<close>.\<close>

definition score_book ::
    "string list \<Rightarrow> string list \<Rightarrow> string set \<Rightarrow> string \<Rightarrow> book \<Rightarrow> real" where
  "score_book top_genres top_authors rated_ids bid b =
     (let score = 1;
          score = boost 2 top_genres (categories b) score;
          score = boost (5 / 2) top_authors (authors b) score
      in if bid \<notin> rated_ids then score + 1 / 2 else score)"

text \<open>
  The dictionary \<^verbatim>\<open>scored\<close>: book id to score and book. Lines 51 to 68, the body of
  \<^verbatim>\<open>for b in flat\<close>: a candidate whose id is null or empty is skipped; an id that is new, or
  whose stored score is strictly smaller, gets this candidate.
\<close>

type_synonym scored_dict = "(string \<times> real \<times> book) list"

definition scored_step ::
    "string list \<Rightarrow> string list \<Rightarrow> string set \<Rightarrow> scored_dict \<Rightarrow> book \<Rightarrow> scored_dict" where
  "scored_step top_genres top_authors rated_ids scored b =
     (case book_id b of
        None \<Rightarrow> scored
      | Some bid \<Rightarrow>
          if bid = [] then scored
          else
            (let score = score_book top_genres top_authors rated_ids bid b
             in case map_of scored bid of
                  None \<Rightarrow> dict_set scored bid (score, b)
                | Some (old, _) \<Rightarrow>
                    if score > old then dict_set scored bid (score, b) else scored))"

definition scored_loop ::
    "string list \<Rightarrow> string list \<Rightarrow> string set \<Rightarrow> book list \<Rightarrow> scored_dict" where
  "scored_loop top_genres top_authors rated_ids flat =
     foldl (scored_step top_genres top_authors rated_ids) [] flat"

text \<open>
  The slice \<^verbatim>\<open>xs[:k]\<close>: the first \<open>k\<close> items for \<open>k \<ge> 0\<close>, all but the last \<open>-k\<close> for
  \<open>k < 0\<close>.
\<close>

definition slice_to :: "'a list \<Rightarrow> int \<Rightarrow> 'a list" where
  "slice_to xs k =
     (if 0 \<le> k then take (nat k) xs else take (nat (int (length xs) + k)) xs)"

text \<open>
  Lines 44 and 50 to 72. \<^verbatim>\<open>sorted(..., key=score, reverse=True)\<close> is stable: entries of equal
  score keep the order of \<^verbatim>\<open>scored.values()\<close>.
\<close>

definition rank_candidates ::
    "book list \<Rightarrow> string list \<Rightarrow> string list \<Rightarrow> string set \<Rightarrow> int \<Rightarrow> book list" where
  "rank_candidates flat top_genres top_authors rated_ids limit =
     (let scored = scored_loop top_genres top_authors rated_ids flat;
          sorted_books = sort_key (\<lambda>(score, b). - score) (map snd scored)
      in map snd (slice_to sorted_books limit))"

text \<open>Lines 45 to 48: the ids of the books the user has rated.\<close>

definition rated_ids_of :: "rating_doc list \<Rightarrow> string \<Rightarrow> string set" where
  "rated_ids_of ratings_col user_id = set (map r_book_id (ratings_find ratings_col user_id))"

definition recommend_for_user ::
    "rating_doc list \<Rightarrow> provider \<Rightarrow> string \<Rightarrow> int \<Rightarrow> book list io" where
  "recommend_for_user ratings_col client_get user_id limit =
     (case get_user_top_genres_and_authors ratings_col user_id 3 of
        (top_genres, top_authors) \<Rightarrow>
          (case retrieve_candidates client_get top_genres top_authors of
             (evs, Inl e) \<Rightarrow> (Ratings_find user_id # evs, Inl e)
           | (evs, Inr flat) \<Rightarrow>
               (let rated_ids = rated_ids_of ratings_col user_id
                in (Ratings_find user_id # evs @ [Ratings_find user_id],
                    Inr (rank_candidates flat top_genres top_authors rated_ids limit)))))"

text \<open>The search requests in a log, in the order they were issued.\<close>

fun queries :: "io_event list \<Rightarrow> (string \<times> int) list" where
  "queries [] = []"
| "queries (Client_get q n # evs) = (q, n) # queries evs"
| "queries (Ratings_find u # evs) = queries evs"

section \<open>Notions of the specification\<close>

text \<open>
  \<open>g\<close> is a case-insensitive substring of \<open>s\<close>: after lower-casing both, \<open>g\<close> occurs in \<open>s\<close>
  as a contiguous block.
\<close>

definition ci_substring :: "string \<Rightarrow> string \<Rightarrow> bool" where
  "ci_substring g s = sublist (lower g) (lower s)"

text \<open>
  \<open>g\<close> is a case-insensitive substring of at least one entry of \<open>cs\<close> (a null entry counts
  as the empty string).
\<close>

definition ci_matches :: "string \<Rightarrow> string option list \<Rightarrow> bool" where
  "ci_matches g cs = (\<exists>c \<in> set cs. ci_substring g (or_empty c))"

text \<open>Every key of a counter is its own lower-casing.\<close>

definition lowered :: "counter \<Rightarrow> bool" where
  "lowered c = (\<forall>k \<in> set (keys c). lower k = k)"

section \<open>Example data\<close>

text \<open>A candidate with an id, categories and authors, and no other metadata.\<close>

definition candidate :: "string \<Rightarrow> string list \<Rightarrow> string list \<Rightarrow> book" where
  "candidate i cs as =
     \<lparr>book_id = Some i, title = None, authors = map Some as, publisher = None,
      publishedDate = None, description = None, categories = map Some cs, pageCount = None,
      thumbnail = None, infoLink = None\<rparr>"

text \<open>A rating document with all its fields.\<close>

definition doc :: "string \<Rightarrow> string \<Rightarrow> real \<Rightarrow> string list \<Rightarrow> string list \<Rightarrow> rating_doc" where
  "doc u i x cs as =
     \<lparr>r_user_id = u, r_book_id = i, r_rating = Some x, r_categories = Some cs,
      r_authors = Some as\<rparr>"

text \<open>The store of the specification's scenario: one user, one rating.\<close>

definition one_rating :: "rating_doc list" where
  "one_rating = [doc ''u'' ''A1'' 5 [''fiction''] [''Jane Doe'']]"

text \<open>
  The requests of lines 30 to 38 as pairs of \<^verbatim>\<open>q\<close> and \<^verbatim>\<open>maxResults\<close>: one per profile
  genre, one per profile author, and the two generic ones when there is neither.
\<close>

definition query_plan :: "string list \<Rightarrow> string list \<Rightarrow> (string \<times> int) list" where
  "query_plan top_genres top_authors =
     (if top_genres = [] \<and> top_authors = []
      then [(''subject:fiction'', 15), (''subject:nonfiction'', 15)]
      else map (\<lambda>g. (''subject:'' @ g, 10)) top_genres
           @ map (\<lambda>a. (''inauthor:'' @ a, 10)) top_authors)"

text \<open>
  What one query contributes to the pool when its failure, if any, is replaced by an empty
  result.
\<close>

definition query_result :: "provider \<Rightarrow> string \<times> int \<Rightarrow> book list" where
  "query_result client_get qn =
     (case client_get (fst qn) (snd qn) of
        Inl e \<Rightarrow> []
      | Inr data \<Rightarrow> map normalize_book (case data of None \<Rightarrow> [] | Some items \<Rightarrow> items))"


section \<open>Example providers and stores\<close>

text \<open>An item of a response, with an id, categories and authors.\<close>

definition volume :: "string option \<Rightarrow> string list \<Rightarrow> string list \<Rightarrow> item" where
  "volume i cs as =
     \<lparr>item_id = i,
      volumeInfo = Some \<lparr>v_title = None, v_authors = Some (map Some as), v_publisher = None,
        v_publishedDate = None, v_description = None, v_categories = Some (map Some cs),
        v_pageCount = None, v_thumbnail = None, v_infoLink = None\<rparr>\<rparr>"

text \<open>A provider whose responses carry no \<^verbatim>\<open>items\<close> key.\<close>

definition no_items :: provider where
  "no_items q n = Inr None"



definition author_timeout :: provider where
  "author_timeout q n =
     (if q = ''inauthor:jane doe'' then Inl HTTPError
      else Inr (Some [volume (Some ''B2'') [''Fiction''] [''John Roe'']]))"

definition author_unknown :: provider where
  "author_unknown q n =
     (if q = ''inauthor:jane doe'' then Inr None
      else Inr (Some [volume (Some ''B2'') [''Fiction''] [''John Roe'']]))"

text \<open>The store of the scenario with a rating of a second user.\<close>

definition two_users :: "rating_doc list" where
  "two_users = doc ''v'' ''Z9'' 3 [''Poetry''] [] # one_rating"

section \<open>Notions of the specification: deduplication and ranking\<close>

text \<open>The occurrences of an id in the pool, in pool order.\<close>

definition occurrences :: "string \<Rightarrow> book list \<Rightarrow> book list" where
  "occurrences bid flat = filter (\<lambda>b. book_id b = Some bid) flat"

text \<open>
  \<open>b\<close> is the occurrence to keep among \<open>occ\<close>: it has the maximal score, and every
  occurrence before it has a strictly smaller one (first seen wins a tie).
\<close>

definition first_best :: "(book \<Rightarrow> real) \<Rightarrow> book list \<Rightarrow> book \<Rightarrow> bool" where
  "first_best f occ b =
     (\<exists>pre post. occ = pre @ b # post
        \<and> (\<forall>c \<in> set pre. f c < f b) \<and> (\<forall>c \<in> set post. f c \<le> f b))"

text \<open>The non-empty ids that occur in the pool.\<close>

definition valid_ids :: "book list \<Rightarrow> string set" where
  "valid_ids flat = {bid. bid \<noteq> [] \<and> Some bid \<in> book_id ` set flat}"

text \<open>
  The invariant of the loop over the pool: the dictionary has one entry for each non-empty
  id seen so far, holding the occurrence to keep and its score.
\<close>

definition scored_inv ::
    "string list \<Rightarrow> string list \<Rightarrow> string set \<Rightarrow> book list \<Rightarrow> scored_dict \<Rightarrow> bool" where
  "scored_inv tg ta rated flat scored =
     (distinct (keys scored) \<and> set (keys scored) = valid_ids flat \<and>
      (\<forall>e \<in> set scored.
         fst (snd e) = score_book tg ta rated (fst e) (snd (snd e)) \<and>
         first_best (score_book tg ta rated (fst e)) (occurrences (fst e) flat) (snd (snd e))))"

text \<open>The deduplicated candidates with their scores: \<^verbatim>\<open>scored.values()\<close> after the loop.\<close>

definition deduplicated ::
    "string list \<Rightarrow> string list \<Rightarrow> string set \<Rightarrow> book list \<Rightarrow> (real \<times> book) list" where
  "deduplicated tg ta rated flat = map snd (scored_loop tg ta rated flat)"

section \<open>Example pools\<close>

text \<open>
  A pool with three occurrences of \<^verbatim>\<open>C3\<close> (the last two tie), a candidate without an id
  and one with an empty id.
\<close>

definition dup_pool :: "book list" where
  "dup_pool =
     [candidate ''C3'' [] [],
      candidate ''B2'' [''Fiction''] [''John Roe''],
      candidate ''C3'' [''Fiction''] [],
      candidate ''C3'' [''Science Fiction''] [],
      (candidate [] [''Fiction''] [''Jane Doe''])\<lparr>book_id := None\<rparr>,
      candidate [] [''Fiction''] [''Jane Doe''],
      candidate ''A1'' [''Fiction''] [''Jane Doe'']]"

text \<open>A provider that answers every query with an item without id, one with an empty id
  and the book \<^verbatim>\<open>B2\<close>.\<close>

definition some_without_id :: provider where
  "some_without_id q n =
     Inr (Some [volume None [''Fiction''] [''Jane Doe''],
                volume (Some []) [''Fiction''] [''Jane Doe''],
                volume (Some ''B2'') [''Fiction''] [''John Roe'']])"

section \<open>Notions of the specification: the profile\<close>

text \<open>The names in a metadata field; none when the field is absent or null.\<close>

definition names_of :: "string list option \<Rightarrow> string list" where
  "names_of field = (case field of None \<Rightarrow> [] | Some names \<Rightarrow> names)"

text \<open>
  The increments one counter receives, in order: for each record, for each name of the
  field, the lower-cased name and the record's rating (0 when it has none).
\<close>

definition increments ::
    "(rating_doc \<Rightarrow> string list option) \<Rightarrow> rating_doc list \<Rightarrow> (string \<times> real) list" where
  "increments field rs =
     concat (map (\<lambda>r. map (\<lambda>g. (lower g, get_rating r)) (names_of (field r))) rs)"

definition add_increment :: "counter \<Rightarrow> string \<times> real \<Rightarrow> counter" where
  "add_increment c e = counter_add c (fst e) (snd e)"

text \<open>The sum of the increments of one key.\<close>

definition total :: "(string \<times> real) list \<Rightarrow> string \<Rightarrow> real" where
  "total es k = sum_list (map snd (filter (\<lambda>e. fst e = k) es))"

text \<open>The distinct elements of a list, in the order of their first occurrence.\<close>

definition first_seen :: "'a list \<Rightarrow> 'a list" where
  "first_seen xs = rev (remdups (rev xs))"

text \<open>The lower-cased names of a field over the records, in first-encountered order.\<close>

definition seen :: "(rating_doc \<Rightarrow> string list option) \<Rightarrow> rating_doc list \<Rightarrow> string list" where
  "seen field rs = first_seen (map lower (concat (map (\<lambda>r. names_of (field r)) rs)))"

text \<open>
  The accumulated weight of a lower-cased name: each record adds its rating once for each
  entry of its field whose lower-casing is the name.
\<close>

definition weight ::
    "(rating_doc \<Rightarrow> string list option) \<Rightarrow> rating_doc list \<Rightarrow> string \<Rightarrow> real" where
  "weight field rs k =
     (\<Sum>r\<leftarrow>rs. get_rating r * real (count_list (map lower (names_of (field r))) k))"





section \<open>Example stores\<close>


text \<open>A document with metadata and no \<^verbatim>\<open>rating\<close> field, and a store that holds it.\<close>

definition unrated_doc :: rating_doc where
  "unrated_doc =
     \<lparr>r_user_id = ''u'', r_book_id = ''P1'', r_rating = None,
      r_categories = Some [''Poetry''], r_authors = Some [''Ann Lee'']\<rparr>"

definition unrated :: "rating_doc list" where
  "unrated = [unrated_doc, doc ''u'' ''A1'' 5 [''fiction''] [''Jane Doe'']]"


section \<open>Strings and dictionaries: basic facts\<close>

lemma lower_char_idem: "lower_char (lower_char c) = lower_char c"
  by (auto simp: lower_char_def split: option.splits if_splits)

lemma lower_idem: "lower (lower s) = lower s"
  by (simp add: lower_def lower_char_idem)

lemma startswith_prefix: "startswith s g = prefix g s"
  by (induction s g rule: startswith.induct) auto

lemma str_contains_sublist: "str_contains s g = sublist g s"
  by (induction s) (auto simp: startswith_prefix sublist_Cons_right)

lemma keys_simps: "keys [] = []" "keys ((k, v) # d) = k # keys d"
  by (simp_all add: keys_def)

lemma dict_set_keys:
  "keys (dict_set d k v) = (if k \<in> set (keys d) then keys d else keys d @ [k])"
  by (induction d) (auto simp: keys_simps)

lemma counter_add_keys:
  "set (keys (counter_add c k v)) = insert k (set (keys c))"
  by (auto simp: counter_add_def dict_set_keys)

lemma add_all_keys: "set (keys (add_all c gs v)) = set (keys c) \<union> lower ` set gs"
  by (induction gs arbitrary: c) (auto simp: counter_add_keys)

section \<open>Profile entries are lower-cased\<close>

lemma add_field_lowered: "lowered c \<Longrightarrow> lowered (add_field c f v)"
  by (auto simp: lowered_def add_field_def add_all_keys lower_idem split: option.splits)

lemma profile_step_lowered:
  "lowered (fst s) \<Longrightarrow> lowered (snd s) \<Longrightarrow>
   lowered (fst (profile_step s r)) \<and> lowered (snd (profile_step s r))"
  by (cases s) (simp add: profile_step_def add_field_lowered)

lemma foldl_profile_step_lowered:
  "lowered (fst s) \<Longrightarrow> lowered (snd s) \<Longrightarrow>
   lowered (fst (foldl profile_step s rs)) \<and> lowered (snd (foldl profile_step s rs))"
  by (induction rs arbitrary: s) (auto simp: profile_step_lowered)

lemma profile_counts_lowered:
  "lowered (fst (profile_counts ratings_col user_id))"
  "lowered (snd (profile_counts ratings_col user_id))"
  using foldl_profile_step_lowered[of "([], [])"]
  by (simp_all add: profile_counts_def lowered_def keys_simps)

lemma most_common_subset: "set (most_common c n) \<subseteq> set c"
  using set_take_subset[of "nat n" "sort_key (\<lambda>(k, w). - w) c"] by (simp add: most_common_def)

lemma most_common_lowered: "lowered c \<Longrightarrow> g \<in> set (map fst (most_common c n)) \<Longrightarrow> lower g = g"
  using most_common_subset[of c n] by (auto simp: lowered_def keys_def)

lemma top_genres_lowered:
  "g \<in> set (fst (get_user_top_genres_and_authors ratings_col user_id top_n)) \<Longrightarrow> lower g = g"
  using profile_counts_lowered(1)[of ratings_col user_id]
        most_common_lowered[of "fst (profile_counts ratings_col user_id)" g top_n]
  by (simp add: get_user_top_genres_and_authors_def split: prod.splits)

lemma top_authors_lowered:
  "a \<in> set (snd (get_user_top_genres_and_authors ratings_col user_id top_n)) \<Longrightarrow> lower a = a"
  using profile_counts_lowered(2)[of ratings_col user_id]
        most_common_lowered[of "snd (profile_counts ratings_col user_id)" a top_n]
  by (simp add: get_user_top_genres_and_authors_def split: prod.splits)

section \<open>The score of a candidate\<close>

lemma boost_eq:
  "boost w gs cs score = score + w * real (length (filter (\<lambda>g. any_in g cs) gs))"
  by (induction gs arbitrary: score) (auto simp: algebra_simps)

lemma any_in_ci: "lower g = g \<Longrightarrow> any_in g cs = ci_matches g cs"
  by (simp add: any_in_def ci_matches_def ci_substring_def list_ex_iff str_contains_sublist)

lemma filter_any_in_ci:
  "\<forall>g \<in> set gs. lower g = g \<Longrightarrow>
   filter (\<lambda>g. any_in g cs) gs = filter (\<lambda>g. ci_matches g cs) gs"
  by (rule filter_cong) (auto simp: any_in_ci)

text \<open>
  Claim C1. With the profile that profile extraction returns for the user, the score that
  \<^verbatim>\<open>recommend_for_user\<close> computes for a candidate with a non-empty id is 1, plus 2 for each
  profile genre that is a case-insensitive substring of at least one of the candidate's
  categories, plus 2.5 for each profile author that is a case-insensitive substring of at
  least one of the candidate's authors, plus 0.5 exactly when the id is not among the ids
  the user has rated.
\<close>

theorem score_formula:
  assumes "get_user_top_genres_and_authors ratings_col user_id top_n = (top_genres, top_authors)"
    and "book_id b = Some bid" and "bid \<noteq> []"
  shows "score_book top_genres top_authors (rated_ids_of ratings_col user_id) bid b =
           1 + 2 * real (length (filter (\<lambda>g. ci_matches g (categories b)) top_genres))
             + 5 / 2 * real (length (filter (\<lambda>a. ci_matches a (authors b)) top_authors))
             + (if bid \<in> rated_ids_of ratings_col user_id then 0 else 1 / 2)"
proof -
  have g: "\<forall>g \<in> set top_genres. lower g = g"
    using top_genres_lowered[of _ ratings_col user_id top_n] assms(1) by simp
  have a: "\<forall>a \<in> set top_authors. lower a = a"
    using top_authors_lowered[of _ ratings_col user_id top_n] assms(1) by simp
  show ?thesis
    by (simp add: score_book_def boost_eq filter_any_in_ci[OF g] filter_any_in_ci[OF a])
qed

text \<open>
  The scenario of the specification: the rated book \<^verbatim>\<open>A1\<close> matches the genre and the author
  and scores 5.5.
\<close>

theorem score_formula_witness:
  "get_user_top_genres_and_authors one_rating ''u'' 3 = ([''fiction''], [''jane doe''])
   \<and> book_id (candidate ''A1'' [''Fiction''] [''Jane Doe'']) = Some ''A1''
   \<and> ''A1'' \<noteq> []
   \<and> score_book [''fiction''] [''jane doe''] (rated_ids_of one_rating ''u'') ''A1''
        (candidate ''A1'' [''Fiction''] [''Jane Doe'']) = 11 / 2"
proof -
  have p: "get_user_top_genres_and_authors one_rating ''u'' 3 = ([''fiction''], [''jane doe''])"
    by code_simp
  have i: "book_id (candidate ''A1'' [''Fiction''] [''Jane Doe'']) = Some ''A1''"
    by (simp add: candidate_def)
  have n: "''A1'' \<noteq> []"
    by simp
  have r: "''A1'' \<in> rated_ids_of one_rating ''u''"
    by (simp add: rated_ids_of_def ratings_find_def one_rating_def doc_def)
  have m: "ci_matches ''fiction'' (categories (candidate ''A1'' [''Fiction''] [''Jane Doe'']))"
    "ci_matches ''jane doe'' (authors (candidate ''A1'' [''Fiction''] [''Jane Doe'']))"
    by (simp_all add: ci_matches_def ci_substring_def candidate_def or_empty_def lower_def
        lower_char_def)
  show ?thesis
    using score_formula[OF p i n] p i r m by simp
qed

section \<open>The requests issued and the pool retrieved\<close>

lemma build_tasks_plan:
  "build_tasks client_get tg ta =
     map (\<lambda>(q, n). search_books_by_keywords client_get q n) (query_plan tg ta)"
  by (simp add: build_tasks_def query_plan_def search_books_by_genre_def
      search_books_by_author_def Let_def)

lemma queries_append: "queries (xs @ ys) = queries xs @ queries ys"
  by (induction xs rule: queries.induct) auto

lemma queries_tasks:
  "queries (concat (map (fst \<circ> (\<lambda>(q, n). search_books_by_keywords client_get q n)) qs)) = qs"
  by (induction qs) (auto simp: search_books_by_keywords_def)

lemma retrieve_fst:
  "fst (retrieve_candidates client_get tg ta) = concat (map fst (build_tasks client_get tg ta))"
  by (simp add: retrieve_candidates_def gather_def split: sum.splits)

lemma retrieve_log:
  "queries (fst (retrieve_candidates client_get tg ta)) = query_plan tg ta"
  by (simp add: retrieve_fst build_tasks_plan queries_tasks)

lemma recommend_fst:
  "fst (recommend_for_user ratings_col client_get user_id limit) =
     (case get_user_top_genres_and_authors ratings_col user_id 3 of
        (tg, ta) \<Rightarrow>
          Ratings_find user_id # fst (retrieve_candidates client_get tg ta)
          @ (case snd (retrieve_candidates client_get tg ta) of
               Inl e \<Rightarrow> [] | Inr flat \<Rightarrow> [Ratings_find user_id]))"
  by (simp add: recommend_for_user_def Let_def split: prod.splits sum.splits)

lemma recommend_queries:
  "queries (fst (recommend_for_user ratings_col client_get user_id limit)) =
     query_plan (fst (get_user_top_genres_and_authors ratings_col user_id 3))
                (snd (get_user_top_genres_and_authors ratings_col user_id 3))"
  by (simp add: recommend_fst queries_append retrieve_log split: prod.splits sum.splits)

lemma profile_no_ratings: "get_user_top_genres_and_authors [] u 3 = ([], [])"
  by (simp add: get_user_top_genres_and_authors_def profile_counts_def ratings_find_def most_common_def)

section \<open>Failures of the search provider\<close>

lemma search_snd:
  "snd (search_books_by_keywords client_get q n) =
     (if client_get q n = Inl JSONDecodeError then Inl JSONDecodeError
      else Inr (query_result client_get (q, n)))"
  by (auto simp: search_books_by_keywords_def query_result_def
      split: sum.splits py_exception.splits)

lemma collect_Inr: "collect (map Inr xs) = Inr xs"
  by (induction xs) auto

lemma collect_Inl:
  "\<exists>r \<in> set rs. r = Inl e \<Longrightarrow> \<forall>r \<in> set rs. r = Inl e \<or> \<not> isl r \<Longrightarrow> collect rs = Inl e"
  by (induction rs rule: collect.induct) (auto split: sum.splits)

lemma tasks_ok:
  assumes "\<forall>qn \<in> set qs. client_get (fst qn) (snd qn) \<noteq> Inl JSONDecodeError"
  shows "map snd (map (\<lambda>(q, n). search_books_by_keywords client_get q n) qs) =
           map Inr (map (query_result client_get) qs)"
  using assms by (induction qs) (auto simp: search_snd)

lemma tasks_raise:
  assumes "\<exists>qn \<in> set qs. client_get (fst qn) (snd qn) = Inl JSONDecodeError"
  shows "collect (map snd (map (\<lambda>(q, n). search_books_by_keywords client_get q n) qs)) =
           Inl JSONDecodeError"
proof (rule collect_Inl)
  from assms obtain q n where "(q, n) \<in> set qs" "client_get q n = Inl JSONDecodeError"
    by auto
  then have "snd (search_books_by_keywords client_get q n) = Inl JSONDecodeError"
    by (simp add: search_snd)
  with \<open>(q, n) \<in> set qs\<close>
  show "\<exists>r\<in>set (map snd (map (\<lambda>(q, n). search_books_by_keywords client_get q n) qs)).
          r = Inl JSONDecodeError"
    by force
  show "\<forall>r\<in>set (map snd (map (\<lambda>(q, n). search_books_by_keywords client_get q n) qs)).
          r = Inl JSONDecodeError \<or> \<not> isl r"
    by (auto simp: search_snd split: if_splits)
qed

lemma collect_tasks:
  "collect (map snd (map (\<lambda>(q, n). search_books_by_keywords client_get q n) qs)) =
     (if \<exists>qn \<in> set qs. client_get (fst qn) (snd qn) = Inl JSONDecodeError
      then Inl JSONDecodeError
      else Inr (map (query_result client_get) qs))"
proof (cases "\<exists>qn \<in> set qs. client_get (fst qn) (snd qn) = Inl JSONDecodeError")
  case True
  then show ?thesis
    by (simp only: tasks_raise if_True)
next
  case False
  then have "\<forall>qn \<in> set qs. client_get (fst qn) (snd qn) \<noteq> Inl JSONDecodeError"
    by simp
  from tasks_ok[OF this] False show ?thesis
    by (simp only: collect_Inr if_False)
qed

lemma retrieve_snd:
  "snd (retrieve_candidates client_get tg ta) =
     (if \<exists>qn \<in> set (query_plan tg ta). client_get (fst qn) (snd qn) = Inl JSONDecodeError
      then Inl JSONDecodeError
      else Inr (concat (map (query_result client_get) (query_plan tg ta))))"
proof -
  have "snd (retrieve_candidates client_get tg ta) =
          (case collect (map snd (build_tasks client_get tg ta)) of
             Inl e \<Rightarrow> Inl e | Inr results \<Rightarrow> Inr (concat results))"
    by (simp add: retrieve_candidates_def gather_def split: sum.splits)
  then show ?thesis
    by (simp only: build_tasks_plan collect_tasks) simp
qed

lemma recommend_snd:
  "snd (recommend_for_user ratings_col client_get user_id limit) =
     (case get_user_top_genres_and_authors ratings_col user_id 3 of
        (tg, ta) \<Rightarrow>
          (case snd (retrieve_candidates client_get tg ta) of
             Inl e \<Rightarrow> Inl e
           | Inr flat \<Rightarrow>
               Inr (rank_candidates flat tg ta (rated_ids_of ratings_col user_id) limit)))"
  by (simp add: recommend_for_user_def Let_def split: prod.splits sum.splits)

section \<open>The scenario evaluated\<close>

lemma profile_one_rating:
  "get_user_top_genres_and_authors one_rating ''u'' 3 = ([''fiction''], [''jane doe''])"
  by code_simp

lemma profile_two_users:
  "get_user_top_genres_and_authors two_users ''u'' 3 = ([''fiction''], [''jane doe''])"
  by code_simp

lemma plan_one_rating:
  "query_plan [''fiction''] [''jane doe''] = [(''subject:fiction'', 10), (''inauthor:jane doe'', 10)]"
  by (simp add: query_plan_def)

lemma normalize_volume: "normalize_book (volume i cs as) = (candidate (the i) cs as)\<lparr>book_id := i\<rparr>"
  by (simp add: normalize_book_def volume_def candidate_def)


section \<open>Fallback queries\<close>

text \<open>
  Claim C6. When the extracted profile has no genre and no author (as for a user with no
  ratings), the search requests issued are exactly the two fallback queries,
  \<^verbatim>\<open>subject:fiction\<close> and \<^verbatim>\<open>subject:nonfiction\<close>, each capped at 15; and for every input at
  least one search request is issued.
\<close>

theorem fallback_queries:
  "(get_user_top_genres_and_authors ratings_col user_id 3 = ([], []) \<longrightarrow>
      queries (fst (recommend_for_user ratings_col client_get user_id limit)) =
        [(''subject:fiction'', 15), (''subject:nonfiction'', 15)])
   \<and> queries (fst (recommend_for_user ratings_col client_get user_id limit)) \<noteq> []"
  by (auto simp: recommend_queries query_plan_def)

text \<open>A user with no ratings, on a store with no documents.\<close>

theorem fallback_queries_witness:
  "get_user_top_genres_and_authors [] ''u'' 3 = ([], [])
   \<and> queries (fst (recommend_for_user [] no_items ''u'' 20)) =
        [(''subject:fiction'', 15), (''subject:nonfiction'', 15)]"
  using fallback_queries[of "[]" "''u''" no_items 20] profile_no_ratings[of "''u''"]
  by simp

section \<open>Tolerance of failed queries\<close>




section \<open>Input validation\<close>




section \<open>Determinism of ranking\<close>

text \<open>
  Claim C9. The result of the scoring-and-ranking step is a function of the candidate pool
  (in its order), the profile, the set of rated ids and the limit: two runs of
  \<^verbatim>\<open>recommend_for_user\<close>, on any stores, providers and users, that agree on these return
  the same list, namely \<^const>\<open>rank_candidates\<close> of them.
\<close>

theorem ranking_deterministic:
  assumes "get_user_top_genres_and_authors db1 u1 3 = (tg, ta)"
    and "get_user_top_genres_and_authors db2 u2 3 = (tg, ta)"
    and "snd (retrieve_candidates web1 tg ta) = Inr flat"
    and "snd (retrieve_candidates web2 tg ta) = Inr flat"
    and "rated_ids_of db1 u1 = rated_ids_of db2 u2"
  shows "snd (recommend_for_user db1 web1 u1 limit) = snd (recommend_for_user db2 web2 u2 limit)
    \<and> snd (recommend_for_user db1 web1 u1 limit) =
        Inr (rank_candidates flat tg ta (rated_ids_of db1 u1) limit)"
  using assms by (simp add: recommend_snd)

text \<open>
  Two runs on different stores and providers with the same profile, pool and rated ids.
\<close>

theorem ranking_deterministic_witness:
  "get_user_top_genres_and_authors one_rating ''u'' 3 = ([''fiction''], [''jane doe''])
   \<and> get_user_top_genres_and_authors two_users ''u'' 3 = ([''fiction''], [''jane doe''])
   \<and> snd (retrieve_candidates author_timeout [''fiction''] [''jane doe'']) =
        Inr [candidate ''B2'' [''Fiction''] [''John Roe'']]
   \<and> snd (retrieve_candidates author_unknown [''fiction''] [''jane doe'']) =
        Inr [candidate ''B2'' [''Fiction''] [''John Roe'']]
   \<and> rated_ids_of one_rating ''u'' = rated_ids_of two_users ''u''
   \<and> snd (recommend_for_user one_rating author_timeout ''u'' 20) =
       snd (recommend_for_user two_users author_unknown ''u'' 20)"
proof -
  have r1: "snd (retrieve_candidates author_timeout [''fiction''] [''jane doe'']) =
        Inr [candidate ''B2'' [''Fiction''] [''John Roe'']]"
    by (simp add: retrieve_snd plan_one_rating query_result_def author_timeout_def
        normalize_volume candidate_def)
  have r2: "snd (retrieve_candidates author_unknown [''fiction''] [''jane doe'']) =
        Inr [candidate ''B2'' [''Fiction''] [''John Roe'']]"
    by (simp add: retrieve_snd plan_one_rating query_result_def author_unknown_def
        normalize_volume candidate_def)
  have ids: "rated_ids_of one_rating ''u'' = rated_ids_of two_users ''u''"
    by (simp add: rated_ids_of_def ratings_find_def one_rating_def two_users_def doc_def)
  show ?thesis
    using ranking_deterministic[OF profile_one_rating profile_two_users r1 r2 ids, of 20]
      profile_one_rating profile_two_users r1 r2 ids
    by simp
qed

section \<open>The loop over the pool\<close>

lemma map_of_dict_set: "map_of (dict_set d k v) = (map_of d)(k \<mapsto> v)"
  by (induction d) auto

lemma dict_set_new: "k \<notin> set (keys d) \<Longrightarrow> dict_set d k v = d @ [(k, v)]"
  by (induction d) (auto simp: keys_simps)

lemma set_dict_set:
  "set (dict_set d k v) = {e \<in> set d. fst e \<noteq> k} \<union> {(k, v)}" if "distinct (keys d)"
  using that by (induction d) (force simp: keys_def split: if_splits)+

lemma map_of_keys_None: "map_of d k = None \<longleftrightarrow> k \<notin> set (keys d)"
  by (simp add: keys_def map_of_eq_None_iff)

lemma map_of_keys_Some: "distinct (keys d) \<Longrightarrow> map_of d k = Some v \<longleftrightarrow> (k, v) \<in> set d"
  by (simp add: keys_def)

lemma first_best_single: "first_best f [b] b"
  unfolding first_best_def by (rule exI[of _ "[]"], rule exI[of _ "[]"]) simp

lemma first_best_snoc_keep:
  assumes "first_best f occ c" and "f b \<le> f c"
  shows "first_best f (occ @ [b]) c"
proof -
  from assms(1) obtain pre post where
    o: "occ = pre @ c # post" "\<forall>x \<in> set pre. f x < f c" "\<forall>x \<in> set post. f x \<le> f c"
    unfolding first_best_def by blast
  have "occ @ [b] = pre @ c # (post @ [b])"
    by (simp add: o(1))
  moreover have "\<forall>x \<in> set (post @ [b]). f x \<le> f c"
    using o(3) assms(2) by auto
  ultimately show ?thesis
    unfolding first_best_def using o(2) by blast
qed

lemma first_best_snoc_new:
  assumes "first_best f occ c" and "f c < f b"
  shows "first_best f (occ @ [b]) b"
proof -
  from assms(1) obtain pre post where
    o: "occ = pre @ c # post" "\<forall>x \<in> set pre. f x < f c" "\<forall>x \<in> set post. f x \<le> f c"
    unfolding first_best_def by blast
  have "\<forall>x \<in> set occ. f x < f b"
    using o assms(2) by fastforce
  then show ?thesis
    unfolding first_best_def by (intro exI[of _ occ] exI[of _ "[]"]) simp
qed

lemma first_best_mem: "first_best f occ b \<Longrightarrow> b \<in> set occ"
  by (auto simp: first_best_def)

lemma occurrences_snoc:
  "occurrences bid (flat @ [b]) =
     (if book_id b = Some bid then occurrences bid flat @ [b] else occurrences bid flat)"
  by (simp add: occurrences_def)

lemma valid_ids_snoc:
  "valid_ids (flat @ [b]) =
     (case book_id b of None \<Rightarrow> valid_ids flat
      | Some k \<Rightarrow> if k = [] then valid_ids flat else insert k (valid_ids flat))"
  by (auto simp: valid_ids_def split: option.splits)

lemma occurrences_empty: "bid \<noteq> [] \<Longrightarrow> bid \<notin> valid_ids flat \<Longrightarrow> occurrences bid flat = []"
  by (auto simp: valid_ids_def occurrences_def filter_empty_conv image_iff)

lemma scored_inv_step:
  assumes inv: "scored_inv tg ta rated flat scored"
  shows "scored_inv tg ta rated (flat @ [b]) (scored_step tg ta rated scored b)"
proof -
  let ?sc = "score_book tg ta rated"
  from inv have d: "distinct (keys scored)" and ks: "set (keys scored) = valid_ids flat"
    and en: "\<And>e. e \<in> set scored \<Longrightarrow>
               fst (snd e) = ?sc (fst e) (snd (snd e)) \<and>
               first_best (?sc (fst e)) (occurrences (fst e) flat) (snd (snd e))"
    by (auto simp: scored_inv_def)
  have key_ne: "fst e \<noteq> []" if "e \<in> set scored" for e
    using that ks by (auto simp: keys_def valid_ids_def)
  show ?thesis
  proof (cases "book_id b")
    case None
    then show ?thesis
      using inv by (simp add: scored_step_def scored_inv_def valid_ids_snoc occurrences_snoc)
  next
    case (Some k)
    show ?thesis
    proof (cases "k = []")
      case True
      have "occurrences (fst e) (flat @ [b]) = occurrences (fst e) flat" if "e \<in> set scored" for e
        using key_ne[OF that] Some True by (auto simp: occurrences_snoc)
      then show ?thesis
        using inv Some True by (simp add: scored_step_def scored_inv_def valid_ids_snoc)
    next
      case False
      have other: "occurrences (fst e) (flat @ [b]) = occurrences (fst e) flat"
        if "fst e \<noteq> k" for e :: "string \<times> real \<times> book"
        using that Some by (auto simp: occurrences_snoc)
      have occ_k: "occurrences k (flat @ [b]) = occurrences k flat @ [b]"
        using Some by (simp add: occurrences_snoc)
      have vs: "valid_ids (flat @ [b]) = insert k (valid_ids flat)"
        using Some False by (simp add: valid_ids_snoc)
      show ?thesis
      proof (cases "map_of scored k")
        case None
        then have nk: "k \<notin> set (keys scored)"
          by (simp add: map_of_keys_None)
        then have step: "scored_step tg ta rated scored b = scored @ [(k, ?sc k b, b)]"
          using Some False None by (simp add: scored_step_def dict_set_new)
        have "occurrences k flat = []"
          using nk ks False by (simp add: occurrences_empty)
        then have fb: "first_best (?sc k) (occurrences k (flat @ [b])) b"
          by (simp add: occ_k first_best_single)
        have old: "fst e \<noteq> k" if "e \<in> set scored" for e
          using that nk by (auto simp: keys_def)
        show ?thesis
          unfolding scored_inv_def step
          using d nk ks vs fb en old other by (auto simp: keys_def)
      next
        case (Some oc)
        obtain old c where oc: "oc = (old, c)"
          by (cases oc)
        have mem: "(k, old, c) \<in> set scored"
          using Some oc d by (simp add: map_of_keys_Some)
        then have kin: "k \<in> set (keys scored)"
          by (force simp: keys_def)
        from en[OF mem] have old_eq: "old = ?sc k c"
          and fbc: "first_best (?sc k) (occurrences k flat) c"
          by simp_all
        have uniq: "e = (k, old, c)" if "e \<in> set scored" "fst e = k" for e
          using that mem d by (metis keys_def eq_key_imp_eq_value prod.collapse)
        show ?thesis
        proof (cases "?sc k b > old")
          case True
          then have step: "scored_step tg ta rated scored b = dict_set scored k (?sc k b, b)"
            using \<open>book_id b = Some k\<close> False Some oc by (simp add: scored_step_def)
          have fb: "first_best (?sc k) (occurrences k (flat @ [b])) b"
            unfolding occ_k using fbc True old_eq by (intro first_best_snoc_new[of _ _ c]) simp_all
          show ?thesis
            unfolding scored_inv_def step
            using d kin ks vs fb en other
            by (auto simp: dict_set_keys set_dict_set)
        next
          case F: False
          then have step: "scored_step tg ta rated scored b = scored"
            using \<open>book_id b = Some k\<close> False Some oc by (simp add: scored_step_def)
          have fb: "first_best (?sc k) (occurrences k (flat @ [b])) c"
            unfolding occ_k using fbc F old_eq by (intro first_best_snoc_keep) simp_all
          have "first_best (?sc (fst e)) (occurrences (fst e) (flat @ [b])) (snd (snd e))"
            if "e \<in> set scored" for e
          proof (cases "fst e = k")
            case True
            with uniq[OF that] fb show ?thesis by simp
          next
            case False
            with other[of e] en[OF that] show ?thesis by simp
          qed
          then show ?thesis
            unfolding scored_inv_def step
            using d kin ks vs en by auto
        qed
      qed
    qed
  qed
qed

lemma scored_inv_loop: "scored_inv tg ta rated flat (scored_loop tg ta rated flat)"
proof (induction flat rule: rev_induct)
  case Nil
  show ?case
    by (simp add: scored_inv_def scored_loop_def keys_simps valid_ids_def)
next
  case (snoc b flat)
  then show ?case
    using scored_inv_step[of tg ta rated flat "scored_loop tg ta rated flat" b]
    by (simp add: scored_loop_def)
qed

lemma slice_to_take:
  "slice_to xs k = take (if 0 \<le> k then nat k else nat (int (length xs) + k)) xs"
  by (simp add: slice_to_def)

lemma rank_candidates_take:
  "rank_candidates flat tg ta rated limit =
     map snd (take (if 0 \<le> limit then nat limit
                    else nat (int (length (scored_loop tg ta rated flat)) + limit))
              (sort_key (\<lambda>(score, b). - score) (map snd (scored_loop tg ta rated flat))))"
  by (simp add: rank_candidates_def slice_to_take Let_def)

lemma scored_entry:
  assumes "e \<in> set (scored_loop tg ta rated flat)"
  shows "fst e \<noteq> []" and "book_id (snd (snd e)) = Some (fst e)"
    and "fst (snd e) = score_book tg ta rated (fst e) (snd (snd e))"
    and "first_best (score_book tg ta rated (fst e)) (occurrences (fst e) flat) (snd (snd e))"
    and "snd (snd e) \<in> set flat"
proof -
  have inv: "scored_inv tg ta rated flat (scored_loop tg ta rated flat)"
    by (rule scored_inv_loop)
  from inv assms have "fst e \<in> valid_ids flat"
    by (auto simp: scored_inv_def keys_def)
  then show "fst e \<noteq> []"
    by (simp add: valid_ids_def)
  from inv assms show fb:
    "first_best (score_book tg ta rated (fst e)) (occurrences (fst e) flat) (snd (snd e))"
    and "fst (snd e) = score_book tg ta rated (fst e) (snd (snd e))"
    by (auto simp: scored_inv_def)
  from first_best_mem[OF fb] show "book_id (snd (snd e)) = Some (fst e)"
    and "snd (snd e) \<in> set flat"
    by (simp_all add: occurrences_def)
qed

lemma scored_book_ids:
  "map (book_id \<circ> snd) (map snd (scored_loop tg ta rated flat)) =
     map Some (keys (scored_loop tg ta rated flat))"
  by (simp add: keys_def scored_entry(2))

lemma distinct_map_sort_key: "distinct (map g (sort_key f xs)) = distinct (map g xs)"
proof -
  have "mset (map g (sort_key f xs)) = mset (map g xs)"
    by simp
  then show ?thesis
    by (rule mset_eq_imp_distinct_iff)
qed

lemma rank_candidates_distinct: "distinct (map book_id (rank_candidates flat tg ta rated limit))"
proof -
  have "distinct (keys (scored_loop tg ta rated flat))"
    using scored_inv_loop[of tg ta rated flat] by (simp add: scored_inv_def)
  then have "distinct (map (book_id \<circ> snd) (map snd (scored_loop tg ta rated flat)))"
    by (simp only: scored_book_ids distinct_map inj_on_def) simp
  then have "distinct (map (book_id \<circ> snd)
      (sort_key (\<lambda>(score, b). - score) (map snd (scored_loop tg ta rated flat))))"
    by (simp only: distinct_map_sort_key)
  then show ?thesis
    unfolding rank_candidates_take
    by (simp only: map_map[symmetric] take_map[symmetric] distinct_take)
qed

lemma rank_candidates_mem:
  assumes "b \<in> set (rank_candidates flat tg ta rated limit)"
  shows "\<exists>e \<in> set (scored_loop tg ta rated flat). b = snd (snd e)"
proof -
  from assms obtain v where
    "v \<in> set (sort_key (\<lambda>(score, b). - score) (map snd (scored_loop tg ta rated flat)))"
    "b = snd v"
    unfolding rank_candidates_take by (auto dest: in_set_takeD)
  then show ?thesis
    by auto
qed

lemma sorted_desc_sort_key:
  "sorted_wrt (\<lambda>x y. fst y \<le> fst x) (sort_key (\<lambda>(score, b). - score) (xs :: (real \<times> 'a) list))"
proof -
  have "sorted (map (\<lambda>(score, b). - score) (sort_key (\<lambda>(score, b). - score) xs))"
    by (rule sorted_sort_key)
  then show ?thesis
    by (simp add: sorted_map case_prod_beta)
qed

section \<open>The example pool evaluated\<close>

lemma rank_dup_pool_20:
  "rank_candidates dup_pool [''fiction''] [''jane doe''] {''A1''} 20 =
     [candidate ''A1'' [''Fiction''] [''Jane Doe''], candidate ''C3'' [''Fiction''] [],
      candidate ''B2'' [''Fiction''] [''John Roe'']]"
  by code_simp

lemma rank_dup_pool_2:
  "rank_candidates dup_pool [''fiction''] [''jane doe''] {''A1''} 2 =
     [candidate ''A1'' [''Fiction''] [''Jane Doe''], candidate ''C3'' [''Fiction''] []]"
  by code_simp

lemma occurrences_dup_pool:
  "occurrences ''C3'' dup_pool =
     [candidate ''C3'' [] [], candidate ''C3'' [''Fiction''] [],
      candidate ''C3'' [''Science Fiction''] []]"
  by (simp add: occurrences_def dup_pool_def candidate_def)

lemma scores_dup_pool:
  "score_book [''fiction''] [''jane doe''] {''A1''} ''C3'' (candidate ''C3'' [] []) = 3 / 2"
  "score_book [''fiction''] [''jane doe''] {''A1''} ''C3'' (candidate ''C3'' [''Fiction''] []) = 7 / 2"
  "score_book [''fiction''] [''jane doe''] {''A1''} ''C3''
     (candidate ''C3'' [''Science Fiction''] []) = 7 / 2"
  by code_simp+

lemma dedup_dup_pool:
  "deduplicated [''fiction''] [''jane doe''] {''A1''} dup_pool =
     [(7 / 2, candidate ''C3'' [''Fiction''] []),
      (7 / 2, candidate ''B2'' [''Fiction''] [''John Roe'']),
      (11 / 2, candidate ''A1'' [''Fiction''] [''Jane Doe''])]"
  by code_simp

lemma recommend_some_without_id:
  "snd (recommend_for_user one_rating some_without_id ''u'' 20) =
     Inr [candidate ''B2'' [''Fiction''] [''John Roe'']]"
  by code_simp

section \<open>Deduplication\<close>

text \<open>
  Claim C3. For every pool, the dictionary built by the loop has exactly one entry for
  each non-empty id of the pool; no id occurs twice in the returned list; and every
  returned book is, among the occurrences of its id in the pool, the one with the maximal
  score, the first of them when several occurrences reach that score.
\<close>

theorem dedup_first_best:
  "distinct (keys (scored_loop tg ta rated flat))
   \<and> set (keys (scored_loop tg ta rated flat)) = valid_ids flat
   \<and> distinct (map book_id (rank_candidates flat tg ta rated limit))
   \<and> (\<forall>b \<in> set (rank_candidates flat tg ta rated limit).
        \<exists>bid. book_id b = Some bid
          \<and> first_best (score_book tg ta rated bid) (occurrences bid flat) b)"
proof -
  have "scored_inv tg ta rated flat (scored_loop tg ta rated flat)"
    by (rule scored_inv_loop)
  then have "distinct (keys (scored_loop tg ta rated flat))"
    "set (keys (scored_loop tg ta rated flat)) = valid_ids flat"
    by (simp_all add: scored_inv_def)
  moreover have "\<exists>bid. book_id b = Some bid
          \<and> first_best (score_book tg ta rated bid) (occurrences bid flat) b"
    if "b \<in> set (rank_candidates flat tg ta rated limit)" for b
    using rank_candidates_mem[OF that] scored_entry(2,4)[of _ tg ta rated flat] by blast
  ultimately show ?thesis
    using rank_candidates_distinct[of flat tg ta rated limit] by blast
qed

text \<open>
  The id \<^verbatim>\<open>C3\<close> occurs three times, with scores 1.5, 3.5 and 3.5: the second occurrence
  is returned, once.
\<close>

theorem dedup_first_best_witness:
  "occurrences ''C3'' dup_pool =
     [candidate ''C3'' [] [], candidate ''C3'' [''Fiction''] [],
      candidate ''C3'' [''Science Fiction''] []]
   \<and> score_book [''fiction''] [''jane doe''] {''A1''} ''C3'' (candidate ''C3'' [] []) = 3 / 2
   \<and> score_book [''fiction''] [''jane doe''] {''A1''} ''C3''
        (candidate ''C3'' [''Fiction''] []) = 7 / 2
   \<and> score_book [''fiction''] [''jane doe''] {''A1''} ''C3''
        (candidate ''C3'' [''Science Fiction''] []) = 7 / 2
   \<and> rank_candidates dup_pool [''fiction''] [''jane doe''] {''A1''} 20 =
       [candidate ''A1'' [''Fiction''] [''Jane Doe''], candidate ''C3'' [''Fiction''] [],
        candidate ''B2'' [''Fiction''] [''John Roe'']]
   \<and> first_best (score_book [''fiction''] [''jane doe''] {''A1''} ''C3'')
        (occurrences ''C3'' dup_pool) (candidate ''C3'' [''Fiction''] [])
   \<and> distinct (map book_id (rank_candidates dup_pool [''fiction''] [''jane doe''] {''A1''} 20))"
proof -
  have "\<exists>bid. book_id (candidate ''C3'' [''Fiction''] []) = Some bid
          \<and> first_best (score_book [''fiction''] [''jane doe''] {''A1''} bid)
               (occurrences bid dup_pool) (candidate ''C3'' [''Fiction''] [])"
    using dedup_first_best[of "[''fiction'']" "[''jane doe'']" "{''A1''}" dup_pool 20]
    by (simp add: rank_dup_pool_20)
  then have "first_best (score_book [''fiction''] [''jane doe''] {''A1''} ''C3'')
        (occurrences ''C3'' dup_pool) (candidate ''C3'' [''Fiction''] [])"
    by (simp add: candidate_def)
  then show ?thesis
    using dedup_first_best[of "[''fiction'']" "[''jane doe'']" "{''A1''}" dup_pool 20]
    by (simp add: occurrences_dup_pool scores_dup_pool rank_dup_pool_20)
qed

section \<open>Candidates without an id\<close>

text \<open>
  Claim C7. A candidate whose id is null or empty leaves the dictionary of scored
  candidates unchanged (it is skipped before any score is computed), and every book
  that \<^verbatim>\<open>recommend_for_user\<close> returns has a non-empty id.
\<close>

theorem malformed_dropped:
  "(book_id b = None \<or> book_id b = Some [] \<longrightarrow> scored_step tg ta rated scored b = scored)
   \<and> (snd (recommend_for_user ratings_col client_get user_id limit) = Inr out \<longrightarrow>
        (\<forall>c \<in> set out. \<exists>bid. book_id c = Some bid \<and> bid \<noteq> []))"
proof -
  have "\<exists>bid. book_id c = Some bid \<and> bid \<noteq> []"
    if "c \<in> set (rank_candidates flat tg' ta' rated' limit)" for c flat tg' ta' rated'
    using rank_candidates_mem[OF that] scored_entry(1,2)[of _ tg' ta' rated' flat] by blast
  then show ?thesis
    by (auto simp: scored_step_def recommend_snd split: prod.splits sum.splits)
qed

text \<open>
  Every query returns an item without id, one with an empty id and \<^verbatim>\<open>B2\<close>: only \<^verbatim>\<open>B2\<close> is
  returned.
\<close>

theorem malformed_dropped_witness:
  "book_id (normalize_book (volume None [''Fiction''] [''Jane Doe''])) = None
   \<and> scored_step [''fiction''] [''jane doe''] {''A1''} []
        (normalize_book (volume None [''Fiction''] [''Jane Doe''])) = []
   \<and> snd (recommend_for_user one_rating some_without_id ''u'' 20) =
        Inr [candidate ''B2'' [''Fiction''] [''John Roe'']]
   \<and> (\<exists>bid. book_id (candidate ''B2'' [''Fiction''] [''John Roe'']) = Some bid \<and> bid \<noteq> [])"
proof -
  have n: "book_id (normalize_book (volume None [''Fiction''] [''Jane Doe''])) = None"
    by (simp add: normalize_book_def volume_def)
  show ?thesis
    using malformed_dropped[of "normalize_book (volume None [''Fiction''] [''Jane Doe''])"
        "[''fiction'']" "[''jane doe'']" "{''A1''}" "[]" one_rating some_without_id "''u''" 20
        "[candidate ''B2'' [''Fiction''] [''John Roe'']]"]
      n recommend_some_without_id
    by simp
qed

section \<open>Sorting and truncation\<close>

text \<open>
  Claim C4, as amended. For every limit that is not negative, the returned list has at
  most \<open>limit\<close> books, exactly \<open>min limit n\<close> for \<open>n\<close> deduplicated candidates; it consists
  of the books (without their scores) of deduplicated candidates listed by descending
  score, no candidate left out scoring higher than one returned; and when there are at
  most \<open>limit\<close> deduplicated candidates, all of them are returned.
\<close>

theorem truncation_sorted:
  assumes "0 \<le> limit"
  shows "int (length (rank_candidates flat tg ta rated limit)) \<le> limit
    \<and> length (rank_candidates flat tg ta rated limit) =
        min (nat limit) (length (deduplicated tg ta rated flat))
    \<and> (\<exists>ss. rank_candidates flat tg ta rated limit = map snd ss
          \<and> mset ss \<subseteq># mset (deduplicated tg ta rated flat)
          \<and> sorted_wrt (\<lambda>x y. fst y \<le> fst x) ss
          \<and> (\<forall>x \<in># mset (deduplicated tg ta rated flat) - mset ss. \<forall>y \<in> set ss. fst x \<le> fst y))
    \<and> (int (length (deduplicated tg ta rated flat)) \<le> limit \<longrightarrow>
          mset (rank_candidates flat tg ta rated limit) =
            mset (map snd (deduplicated tg ta rated flat)))"
proof -
  define D where "D = deduplicated tg ta rated flat"
  define S where "S = sort_key (\<lambda>(score, b). - score) D"
  define ss where "ss = take (nat limit) S"
  have out: "rank_candidates flat tg ta rated limit = map snd ss"
    using assms by (simp add: rank_candidates_take ss_def S_def D_def deduplicated_def)
  have len: "length ss = min (nat limit) (length D)"
    by (simp add: ss_def S_def min.commute)
  have split: "mset D = mset ss + mset (drop (nat limit) S)"
  proof -
    have "mset ss + mset (drop (nat limit) S) = mset S"
      unfolding ss_def by (metis append_take_drop_id mset_append)
    also have "mset S = mset D"
      by (simp add: S_def)
    finally show ?thesis
      by simp
  qed
  have sub: "mset ss \<subseteq># mset D"
    by (simp add: split)
  have sorted_S: "sorted_wrt (\<lambda>x y. fst y \<le> fst x) S"
    unfolding S_def by (rule sorted_desc_sort_key)
  then have sorted_ss: "sorted_wrt (\<lambda>x y. fst y \<le> fst x) ss"
    unfolding ss_def by (rule sorted_wrt_take)
  have rest: "fst x \<le> fst y" if "x \<in># mset D - mset ss" "y \<in> set ss" for x y
  proof -
    from that(1) have "x \<in> set (drop (nat limit) S)"
      by (simp add: split)
    moreover have "sorted_wrt (\<lambda>x y. fst y \<le> fst x) (take (nat limit) S @ drop (nat limit) S)"
      using sorted_S by simp
    ultimately show ?thesis
      using that(2) unfolding ss_def sorted_wrt_append by blast
  qed
  have full: "mset (map snd ss) = mset (map snd D)" if "int (length D) \<le> limit"
  proof -
    from that have "ss = S"
      by (simp add: ss_def S_def)
    then show ?thesis
      by (simp add: S_def)
  qed
  have 1: "int (length (rank_candidates flat tg ta rated limit)) \<le> limit"
    using assms by (simp add: out len)
  have 2: "length (rank_candidates flat tg ta rated limit) = min (nat limit) (length D)"
    by (simp add: out len)
  have 3: "\<exists>ss. rank_candidates flat tg ta rated limit = map snd ss
          \<and> mset ss \<subseteq># mset D
          \<and> sorted_wrt (\<lambda>x y. fst y \<le> fst x) ss
          \<and> (\<forall>x \<in># mset D - mset ss. \<forall>y \<in> set ss. fst x \<le> fst y)"
    using out sub sorted_ss rest by blast
  have 4: "int (length D) \<le> limit \<longrightarrow>
          mset (rank_candidates flat tg ta rated limit) = mset (map snd D)"
    using full by (simp add: out)
  from 1 2 3 4 show ?thesis
    unfolding D_def by blast
qed

text \<open>Three deduplicated candidates, with limit 2 and with limit 20.\<close>

theorem truncation_sorted_witness:
  "(0::int) \<le> 2
   \<and> int (length (rank_candidates dup_pool [''fiction''] [''jane doe''] {''A1''} 2)) \<le> 2
   \<and> length (rank_candidates dup_pool [''fiction''] [''jane doe''] {''A1''} 2) = 2
   \<and> length (deduplicated [''fiction''] [''jane doe''] {''A1''} dup_pool) = 3
   \<and> (0::int) \<le> 20
   \<and> int (length (deduplicated [''fiction''] [''jane doe''] {''A1''} dup_pool)) \<le> 20
   \<and> mset (rank_candidates dup_pool [''fiction''] [''jane doe''] {''A1''} 20) =
       mset (map snd (deduplicated [''fiction''] [''jane doe''] {''A1''} dup_pool))"
proof -
  have l: "length (deduplicated [''fiction''] [''jane doe''] {''A1''} dup_pool) = 3"
    by (simp add: dedup_dup_pool)
  show ?thesis
    using truncation_sorted[of 2 dup_pool "[''fiction'']" "[''jane doe'']" "{''A1''}"]
      truncation_sorted[of 20 dup_pool "[''fiction'']" "[''jane doe'']" "{''A1''}"] l
    by simp
qed

text \<open>
  Claim C4 as stated fails for a negative limit: \<^verbatim>\<open>sorted_books[:-1]\<close> drops the last of the
  three deduplicated candidates and returns two books, more than the limit -1.
\<close>

theorem truncation_negative_limit_counterexample:
  "\<not> int (length (rank_candidates dup_pool [''fiction''] [''jane doe''] {''A1''} (- 1))) \<le> - 1"
  by code_simp

section \<open>The counters after the scan\<close>

lemma add_all_foldl:
  "add_all c gs v = foldl add_increment c (map (\<lambda>g. (lower g, v)) gs)"
  by (induction gs arbitrary: c) (simp_all add: add_increment_def)

lemma add_field_foldl:
  "add_field c f v = foldl add_increment c (map (\<lambda>g. (lower g, v)) (names_of f))"
  by (simp add: add_field_def names_of_def add_all_foldl split: option.splits)

lemma foldl_profile_step:
  "foldl profile_step (gc, ac) rs =
     (foldl add_increment gc (increments r_categories rs),
      foldl add_increment ac (increments r_authors rs))"
  by (induction rs arbitrary: gc ac)
     (simp_all add: increments_def profile_step_def add_field_foldl)

lemma first_seen_snoc:
  "first_seen (xs @ [x]) = (if x \<in> set xs then first_seen xs else first_seen xs @ [x])"
  by (simp add: first_seen_def)

lemma set_first_seen: "set (first_seen xs) = set xs"
  by (simp add: first_seen_def)

lemma distinct_first_seen: "distinct (first_seen xs)"
  by (simp add: first_seen_def)

lemma total_snoc: "total (es @ [e]) k = total es k + (if fst e = k then snd e else 0)"
  by (simp add: total_def)

lemma total_absent: "k \<notin> set (map fst es) \<Longrightarrow> total es k = 0"
  by (induction es) (auto simp: total_def)

lemma map_of_tabulate:
  "map_of (map (\<lambda>k. (k, f k)) ks) k = (if k \<in> set ks then Some (f k) else None)"
  by (induction ks) auto

lemma dict_set_tabulate:
  "distinct ks \<Longrightarrow> k \<in> set ks \<Longrightarrow> (\<And>k'. k' \<noteq> k \<Longrightarrow> g k' = f k') \<Longrightarrow> g k = v \<Longrightarrow>
   dict_set (map (\<lambda>k. (k, f k)) ks) k v = map (\<lambda>k. (k, g k)) ks"
  by (induction ks) (auto, metis)

lemma foldl_add_increment:
  "foldl add_increment [] es = map (\<lambda>k. (k, total es k)) (first_seen (map fst es))"
proof (induction es rule: rev_induct)
  case Nil
  show ?case by (simp add: first_seen_def)
next
  case (snoc e es)
  let ?ks = "first_seen (map fst es)"
  let ?c = "map (\<lambda>k. (k, total es k)) ?ks"
  have step: "foldl add_increment [] (es @ [e]) = counter_add ?c (fst e) (snd e)"
    by (simp add: snoc add_increment_def)
  show ?case
  proof (cases "fst e \<in> set (map fst es)")
    case True
    then have in_ks: "fst e \<in> set ?ks"
      by (simp add: set_first_seen)
    have "counter_add ?c (fst e) (snd e) = dict_set ?c (fst e) (total es (fst e) + snd e)"
      using in_ks by (simp add: counter_add_def map_of_tabulate)
    also have "\<dots> = map (\<lambda>k. (k, total (es @ [e]) k)) ?ks"
      by (rule dict_set_tabulate[OF distinct_first_seen in_ks]) (simp_all add: total_snoc)
    finally have "foldl add_increment [] (es @ [e]) = map (\<lambda>k. (k, total (es @ [e]) k)) ?ks"
      by (simp only: step)
    moreover have "first_seen (map fst (es @ [e])) = ?ks"
      using True by (simp add: first_seen_snoc)
    ultimately show ?thesis
      by (simp only:)
  next
    case False
    then have out_ks: "fst e \<notin> set ?ks"
      by (simp add: set_first_seen)
    then have nk: "fst e \<notin> set (keys ?c)"
      by (simp add: keys_def comp_def)
    have same: "map (\<lambda>k. (k, total (es @ [e]) k)) ?ks = ?c"
      using out_ks by (intro map_cong) (auto simp: total_snoc)
    have "counter_add ?c (fst e) (snd e) = ?c @ [(fst e, snd e)]"
      using out_ks nk by (simp add: counter_add_def map_of_tabulate dict_set_new)
    moreover have "total (es @ [e]) (fst e) = snd e"
      using False by (simp add: total_snoc total_absent)
    ultimately have "foldl add_increment [] (es @ [e]) =
        map (\<lambda>k. (k, total (es @ [e]) k)) (?ks @ [fst e])"
      by (simp add: step same del: foldl_append)
    moreover have "first_seen (map fst (es @ [e])) = ?ks @ [fst e]"
      using False by (simp add: first_seen_snoc)
    ultimately show ?thesis
      by (simp only:)
  qed
qed

lemma total_increments: "total (increments field rs) k = weight field rs k"
proof -
  have inner: "sum_list (map snd (filter (\<lambda>e. fst e = k) (map (\<lambda>g. (lower g, v)) gs))) =
      v * real (count_list (map lower gs) k)" for v gs
    by (induction gs) (auto simp: algebra_simps)
  show ?thesis
    by (induction rs) (simp_all add: total_def increments_def weight_def inner)
qed

lemma keys_increments:
  "map fst (increments field rs) = map lower (concat (map (\<lambda>r. names_of (field r)) rs))"
  by (induction rs) (simp_all add: increments_def comp_def)

lemma profile_counts_eq:
  "profile_counts col uid =
     (map (\<lambda>k. (k, weight r_categories (ratings_find col uid) k))
        (first_seen (map lower (concat (map (\<lambda>r. names_of (r_categories r)) (ratings_find col uid))))),
      map (\<lambda>k. (k, weight r_authors (ratings_find col uid) k))
        (first_seen (map lower (concat (map (\<lambda>r. names_of (r_authors r)) (ratings_find col uid))))))"
  by (simp add: profile_counts_def foldl_profile_step foldl_add_increment total_increments
      keys_increments)

section \<open>The stable sort by descending weight\<close>











lemma sorted_desc_counter:
  "sorted_wrt (\<lambda>x y. snd y \<le> snd x) (sort_key (\<lambda>(k, w). - w) (c :: counter))"
proof -
  have "sorted (map (\<lambda>(k, w). - w) (sort_key (\<lambda>(k, w). - w) c))"
    by (rule sorted_sort_key)
  then show ?thesis
    by (simp add: sorted_map case_prod_beta)
qed

lemma most_common_zero:
  assumes z: "(k, 0) \<in> set c"
    and few: "length (filter (\<lambda>e. 0 < snd e) c) < nat n"
  shows "\<exists>e \<in> set (most_common c n). snd e = 0"
proof (rule ccontr)
  let ?S = "sort_key (\<lambda>(k, w). - w) c"
  let ?P = "\<lambda>e :: string \<times> real. 0 < snd e"
  assume "\<not> (\<exists>e \<in> set (most_common c n). snd e = 0)"
  then have none: "\<And>e. e \<in> set (take (nat n) ?S) \<Longrightarrow> snd e \<noteq> 0"
    by (auto simp: most_common_def)
  have "set ?S = set (take (nat n) ?S) \<union> set (drop (nat n) ?S)"
    by (metis append_take_drop_id set_append)
  moreover have "(k, 0) \<in> set ?S"
    using z by simp
  ultimately have in_drop: "(k, 0) \<in> set (drop (nat n) ?S)"
    using none[of "(k, 0)"] by auto
  then have "drop (nat n) ?S \<noteq> []"
    by auto
  then have len: "length (take (nat n) ?S) = nat n"
    by simp
  have "sorted_wrt (\<lambda>x y. snd y \<le> snd x) (take (nat n) ?S @ drop (nat n) ?S)"
    using sorted_desc_counter[of c] by simp
  then have "\<And>e. e \<in> set (take (nat n) ?S) \<Longrightarrow> 0 \<le> snd e"
    using in_drop unfolding sorted_wrt_append by force
  with none have "\<And>e. e \<in> set (take (nat n) ?S) \<Longrightarrow> ?P e"
    by force
  then have "filter ?P (take (nat n) ?S) = take (nat n) ?S"
    by (simp add: filter_id_conv)
  then have "nat n = length (filter ?P (take (nat n) ?S))"
    using len by simp
  also have "\<dots> \<le> length (filter ?P (take (nat n) ?S)) + length (filter ?P (drop (nat n) ?S))"
    by simp
  also have "\<dots> = length (filter ?P (take (nat n) ?S @ drop (nat n) ?S))"
    by (simp only: filter_append length_append)
  also have "\<dots> = length (filter ?P ?S)"
    by simp
  also have "\<dots> = length (filter ?P c)"
    by (simp add: filter_sort)
  finally show False
    using few by simp
qed

lemma weight_removeAll:
  "get_rating r = 0 \<Longrightarrow> weight field (removeAll r rs) k = weight field rs k"
  by (induction rs) (auto simp: weight_def)

lemma seen_mem:
  "r \<in> set rs \<Longrightarrow> g \<in> set (names_of (field r)) \<Longrightarrow> lower g \<in> set (seen field rs)"
  by (auto simp: seen_def set_first_seen)

lemma keys_tabulate: "keys (map (\<lambda>k. (k, f k)) ks) = ks"
  by (simp add: keys_def comp_def)

section \<open>The example stores evaluated\<close>

lemma profile_counts_unrated:
  "profile_counts unrated ''u'' =
     ([(''poetry'', 0), (''fiction'', 5)], [(''ann lee'', 0), (''jane doe'', 5)])"
  by code_simp

lemma profile_unrated:
  "get_user_top_genres_and_authors unrated ''u'' 3 =
     ([''fiction'', ''poetry''], [''jane doe'', ''ann lee''])"
  by code_simp




section \<open>The extracted profile\<close>




section \<open>Records without a rating\<close>

text \<open>
  Claim C10. A record of the user without a \<^verbatim>\<open>rating\<close> field counts with rating 0; each
  of its lower-cased genres and authors is an entry of the counter, with the weight the
  other records give it; and when a counter has an entry of weight 0 and fewer than
  \<open>top_n\<close> entries of positive weight, an entry of weight 0 is in the returned profile.
\<close>

theorem zero_weight_entries:
  assumes "r \<in> set (ratings_find col uid)" and "r_rating r = None"
  shows "get_rating r = 0
    \<and> (\<forall>g \<in> set (names_of (r_categories r)).
          (lower g, weight r_categories (removeAll r (ratings_find col uid)) (lower g))
            \<in> set (fst (profile_counts col uid)))
    \<and> (\<forall>a \<in> set (names_of (r_authors r)).
          (lower a, weight r_authors (removeAll r (ratings_find col uid)) (lower a))
            \<in> set (snd (profile_counts col uid)))
    \<and> ((\<exists>k. (k, 0) \<in> set (fst (profile_counts col uid)))
          \<and> length (filter (\<lambda>e. 0 < snd e) (fst (profile_counts col uid))) < nat top_n \<longrightarrow>
        (\<exists>k \<in> set (fst (get_user_top_genres_and_authors col uid top_n)).
           (k, 0) \<in> set (fst (profile_counts col uid))))
    \<and> ((\<exists>k. (k, 0) \<in> set (snd (profile_counts col uid)))
          \<and> length (filter (\<lambda>e. 0 < snd e) (snd (profile_counts col uid))) < nat top_n \<longrightarrow>
        (\<exists>k \<in> set (snd (get_user_top_genres_and_authors col uid top_n)).
           (k, 0) \<in> set (snd (profile_counts col uid))))"
proof -
  let ?rs = "ratings_find col uid"
  have r0: "get_rating r = 0"
    using assms(2) by (simp add: get_rating_def)
  have g: "(lower g, weight r_categories (removeAll r ?rs) (lower g)) \<in> set (fst (profile_counts col uid))"
    if "g \<in> set (names_of (r_categories r))" for g
    using seen_mem[of r ?rs g r_categories] assms(1) that
    by (simp add: profile_counts_eq weight_removeAll[OF r0] seen_def)
  have a: "(lower a, weight r_authors (removeAll r ?rs) (lower a)) \<in> set (snd (profile_counts col uid))"
    if "a \<in> set (names_of (r_authors r))" for a
    using seen_mem[of r ?rs a r_authors] assms(1) that
    by (simp add: profile_counts_eq weight_removeAll[OF r0] seen_def)
  have top: "\<exists>k \<in> set (map fst (most_common c top_n)). (k, 0) \<in> set c"
    if "(k, 0) \<in> set c" "length (filter (\<lambda>e. 0 < snd e) c) < nat top_n" for c k
  proof -
    from most_common_zero[OF that] obtain e where
      e: "e \<in> set (most_common c top_n)" "snd e = 0"
      by blast
    then have "e \<in> set c"
      using most_common_subset[of c top_n] by blast
    moreover have "e = (fst e, 0)"
      using e(2) by (simp add: prod_eq_iff)
    ultimately have "(fst e, 0) \<in> set c" "fst e \<in> set (map fst (most_common c top_n))"
      using e(1) by (metis, simp)
    then show ?thesis
      by blast
  qed
  have tg: "fst (get_user_top_genres_and_authors col uid top_n) =
      map fst (most_common (fst (profile_counts col uid)) top_n)"
    and ta: "snd (get_user_top_genres_and_authors col uid top_n) =
      map fst (most_common (snd (profile_counts col uid)) top_n)"
    by (simp_all add: get_user_top_genres_and_authors_def split: prod.splits)
  show ?thesis
    unfolding tg ta using r0 g a top by blast
qed

text \<open>
  A record without rating and a rated one: \<^verbatim>\<open>poetry\<close> and \<^verbatim>\<open>ann lee\<close> have weight 0 and
  are in the profile.
\<close>

theorem zero_weight_entries_witness:
  "unrated_doc \<in> set (ratings_find unrated ''u'')
   \<and> r_rating unrated_doc = None
   \<and> get_rating unrated_doc = 0
   \<and> profile_counts unrated ''u'' =
       ([(''poetry'', 0), (''fiction'', 5)], [(''ann lee'', 0), (''jane doe'', 5)])
   \<and> (lower ''Poetry'', weight r_categories (removeAll unrated_doc (ratings_find unrated ''u''))
         (lower ''Poetry'')) \<in> set (fst (profile_counts unrated ''u''))
   \<and> length (filter (\<lambda>e. 0 < snd e) (fst (profile_counts unrated ''u''))) < nat 3
   \<and> get_user_top_genres_and_authors unrated ''u'' 3 =
       ([''fiction'', ''poetry''], [''jane doe'', ''ann lee''])
   \<and> (\<exists>k \<in> set (fst (get_user_top_genres_and_authors unrated ''u'' 3)).
         (k, 0) \<in> set (fst (profile_counts unrated ''u'')))"
proof -
  have m: "unrated_doc \<in> set (ratings_find unrated ''u'')"
    by (simp add: ratings_find_def unrated_def unrated_doc_def)
  have n: "r_rating unrated_doc = None"
    by (simp add: unrated_doc_def)
  have g: "''Poetry'' \<in> set (names_of (r_categories unrated_doc))"
    by (simp add: names_of_def unrated_doc_def)
  have z: "\<exists>k. (k, 0) \<in> set (fst (profile_counts unrated ''u''))"
    by (simp add: profile_counts_unrated) 
  have f: "length (filter (\<lambda>e. 0 < snd e) (fst (profile_counts unrated ''u''))) < nat 3"
    by (simp add: profile_counts_unrated)
  from zero_weight_entries[OF m n, of 3] g z f
  have "get_rating unrated_doc = 0"
    and "(lower ''Poetry'', weight r_categories (removeAll unrated_doc (ratings_find unrated ''u''))
         (lower ''Poetry'')) \<in> set (fst (profile_counts unrated ''u''))"
    and "\<exists>k \<in> set (fst (get_user_top_genres_and_authors unrated ''u'' 3)).
         (k, 0) \<in> set (fst (profile_counts unrated ''u''))"
    by blast+
  with m n f show ?thesis
    by (simp only: profile_counts_unrated profile_unrated simp_thms)
qed

end
